theory Spec2Isabelle
  imports Main "HOL-Library.Sublist" "HOL-Library.Multiset"
    "HOL-Library.List_Lexorder" "HOL-Library.Char_ord"
begin

text \<open>
  A model of the hierarchy builders, the change detector and the tree materialisers of
  the sync application (\<^verbatim>\<open>getBucketHierarchy\<close>, \<^verbatim>\<open>getFolderHierarchy\<close>, \<^verbatim>\<open>isFileModified\<close>,
  \<^verbatim>\<open>cloneCloudRepo\<close>, \<^verbatim>\<open>pullCloudRepo\<close> and their helpers), and the properties of them that
  the specification states.  The local file system, the object store and the hash
  function are the environment: the file system is a tree that the functions read and
  update, the store is a function from bucket and key to what a request yields, the
  hash function is a parameter.  Every function returns the world it leaves behind,
  also when it ends with an error.
\<close>

section \<open>Hierarchy nodes\<close>

text \<open>
  A hierarchy node is the object literal built by \<^verbatim>\<open>getBucketHierarchy\<close> and
  \<^verbatim>\<open>getFolderHierarchy\<close>: \<^verbatim>\<open>{name, path, type, isModified, children}\<close>.  The
  \<^verbatim>\<open>type\<close> field is either \<^verbatim>\<open>'file'\<close> (no \<^verbatim>\<open>children\<close> field) or \<^verbatim>\<open>'folder'\<close>
  (with \<^verbatim>\<open>children\<close>), which gives the two constructors.
\<close>

datatype node =
    FileN string string bool
  | FolderN string string bool "node list"

fun name :: "node \<Rightarrow> string" where
  "name (FileN n p m) = n"
| "name (FolderN n p m cs) = n"

fun path :: "node \<Rightarrow> string" where
  "path (FileN n p m) = p"
| "path (FolderN n p m cs) = p"

fun is_file :: "node \<Rightarrow> bool" where
  "is_file (FileN n p m) = True"
| "is_file (FolderN n p m cs) = False"

fun children :: "node \<Rightarrow> node list" where
  "children (FileN n p m) = []"
| "children (FolderN n p m cs) = cs"

text \<open>JavaScript exceptions and file-system error codes that the modelled code can raise.\<close>

datatype error = TypeError | ENOENT | ENOTDIR | EISDIR | EEXIST | StreamError

section \<open>Strings: \<^verbatim>\<open>split('/')\<close> and \<^verbatim>\<open>join('/')\<close>\<close>

text \<open>
  \<^verbatim>\<open>key.split('/')\<close>: the pieces between separators; the empty string gives one empty
  piece, a trailing separator gives a last empty piece.
\<close>

fun split_sep :: "string \<Rightarrow> string list" where
  "split_sep [] = [[]]"
| "split_sep (c # cs) =
     (if c = CHR ''/'' then [] # split_sep cs
      else (case split_sep cs of
              [] \<Rightarrow> [[c]]
            | p # ps \<Rightarrow> (c # p) # ps))"

fun join_sep :: "string list \<Rightarrow> string" where
  "join_sep [] = []"
| "join_sep [p] = p"
| "join_sep (p # q # ps) = p @ CHR ''/'' # join_sep (q # ps)"

section \<open>Building the hierarchy from a key listing\<close>

text \<open>
  One round of the outer loop of \<^verbatim>\<open>getBucketHierarchy\<close> (main.js, lines 431-466),
  as a recursion over the remaining \<^verbatim>\<open>parts\<close>.  \<open>pre\<close> holds \<^verbatim>\<open>parts.slice(0, i)\<close>, the
  node is \<^verbatim>\<open>currentFolder\<close>.  \<^verbatim>\<open>children.find\<close> returns the first child of that name
  whatever its type; reading \<^verbatim>\<open>children\<close> of a file node gives \<^verbatim>\<open>undefined\<close>, so
  \<^verbatim>\<open>.find\<close> and \<^verbatim>\<open>.push\<close> on it raise a TypeError.  The tree is mutated in place in
  the source; here the found child is replaced by its updated version at its position.
  \<^verbatim>\<open>split\<close> never returns an empty array (lemma \<open>split_sep_nonempty\<close>), so the equation
  for empty \<open>parts\<close> is never reached from \<open>insertKeys\<close>.
\<close>

fun replace_first :: "('a \<Rightarrow> bool) \<Rightarrow> 'a \<Rightarrow> 'a list \<Rightarrow> 'a list" where
  "replace_first P y [] = []"
| "replace_first P y (x # xs) = (if P x then y # xs else x # replace_first P y xs)"

fun insertKey :: "string \<Rightarrow> string list \<Rightarrow> string list \<Rightarrow> node \<Rightarrow> error + node" where
  "insertKey key pre parts (FileN n p m) = Inl TypeError"
| "insertKey key pre [] (FolderN n p m cs) = Inl TypeError"
| "insertKey key pre [fileName] (FolderN n p m cs) =
     Inr (FolderN n p m (cs @ [FileN fileName key False]))"
| "insertKey key pre (folderName # rest) (FolderN n p m cs) =
     (case find (\<lambda>child. name child = folderName) cs of
        None \<Rightarrow>
          (case insertKey key (pre @ [folderName]) rest
                  (FolderN folderName (join_sep (pre @ [folderName])) False []) of
             Inl e \<Rightarrow> Inl e
           | Inr childFolder \<Rightarrow> Inr (FolderN n p m (cs @ [childFolder])))
      | Some childFolder \<Rightarrow>
          (case insertKey key (pre @ [folderName]) rest childFolder of
             Inl e \<Rightarrow> Inl e
           | Inr childFolder' \<Rightarrow>
               Inr (FolderN n p m
                      (replace_first (\<lambda>child. name child = folderName) childFolder' cs))))"

fun insertKeys :: "string list \<Rightarrow> node \<Rightarrow> error + node" where
  "insertKeys [] h = Inr h"
| "insertKeys (key # keys) h =
     (case insertKey key [] (split_sep key) h of
        Inl e \<Rightarrow> Inl e
      | Inr h' \<Rightarrow> insertKeys keys h')"

text \<open>
  \<^verbatim>\<open>getBucketHierarchy\<close> from the point where the listing response and the friendly name
  are bound.  \<^verbatim>\<open>res.Contents\<close> is absent for an empty bucket, and \<^verbatim>\<open>for ... of undefined\<close>
  raises a TypeError.
\<close>

definition getBucketHierarchy :: "string \<Rightarrow> string list option \<Rightarrow> error + node" where
  "getBucketHierarchy friendlyName contents =
     (case contents of
        None \<Rightarrow> Inl TypeError
      | Some keys \<Rightarrow> insertKeys keys (FolderN friendlyName [] False []))"

section \<open>Local paths and the local file system\<close>

text \<open>
  A local path is kept as the list of its segments below the file-system root (the
  resolved form of an absolute path string).  \<^verbatim>\<open>path.join(folderPath, name)\<close> appends
  the segments of \<^verbatim>\<open>name\<close> and normalises: empty and \<^verbatim>\<open>.\<close> segments vanish, \<^verbatim>\<open>..\<close>
  drops the last segment (and stays at the root).  \<^verbatim>\<open>path.dirname\<close> drops the last
  segment, \<^verbatim>\<open>path.basename\<close> returns it.  These are the POSIX rules, with \<^verbatim>\<open>/\<close> as the
  only separator.
\<close>

type_synonym lpath = "string list"

definition seg_step :: "lpath \<Rightarrow> string \<Rightarrow> lpath" where
  "seg_step p s =
     (if s = [] \<or> s = ''.'' then p
      else if s = ''..'' then butlast p
      else p @ [s])"

definition path_join :: "lpath \<Rightarrow> string \<Rightarrow> lpath" where
  "path_join folderPath nm = foldl seg_step folderPath (split_sep nm)"

definition path_dirname :: "lpath \<Rightarrow> lpath" where
  "path_dirname p = butlast p"

definition path_basename :: "lpath \<Rightarrow> string" where
  "path_basename p = (if p = [] then [] else last p)"

definition path_string :: "lpath \<Rightarrow> string" where
  "path_string p = (if p = [] then ''/'' else concat (map (\<lambda>s. CHR ''/'' # s) p))"

text \<open>
  The file system is a tree: a regular file with its bytes, or a directory with its
  entries in enumeration order (the order \<^verbatim>\<open>readdir\<close> reports).
\<close>

datatype fsnode = FileE string | DirE "(string \<times> fsnode) list"

fun fs_lookup :: "fsnode \<Rightarrow> lpath \<Rightarrow> fsnode option" where
  "fs_lookup e [] = Some e"
| "fs_lookup (FileE b) (s # ss) = None"
| "fs_lookup (DirE es) (s # ss) =
     (case map_of es s of None \<Rightarrow> None | Some sub \<Rightarrow> fs_lookup sub ss)"

definition existsSync :: "fsnode \<Rightarrow> lpath \<Rightarrow> bool" where
  "existsSync fsys p = (fs_lookup fsys p \<noteq> None)"

fun upd_entry :: "string \<Rightarrow> fsnode \<Rightarrow> (string \<times> fsnode) list \<Rightarrow> (string \<times> fsnode) list" where
  "upd_entry s e [] = [(s, e)]"
| "upd_entry s e ((s', e') # es) =
     (if s' = s then (s, e) # es else (s', e') # upd_entry s e es)"

text \<open>
  \<^verbatim>\<open>fs.promises.mkdir(p, { recursive: true })\<close>: creates every missing directory on the
  way; succeeds on an existing directory; fails when a regular file is in the way.
\<close>

fun mkdirp :: "fsnode \<Rightarrow> lpath \<Rightarrow> error + fsnode" where
  "mkdirp (FileE b) [] = Inl EEXIST"
| "mkdirp (FileE b) (s # ss) = Inl ENOTDIR"
| "mkdirp (DirE es) [] = Inr (DirE es)"
| "mkdirp (DirE es) (s # ss) =
     (case map_of es s of
        None \<Rightarrow>
          (case mkdirp (DirE []) ss of
             Inl e \<Rightarrow> Inl e
           | Inr d \<Rightarrow> Inr (DirE (upd_entry s d es)))
      | Some sub \<Rightarrow>
          (case mkdirp sub ss of
             Inl e \<Rightarrow> Inl e
           | Inr d \<Rightarrow> Inr (DirE (upd_entry s d es))))"

text \<open>
  Opening \<^verbatim>\<open>fs.createWriteStream(p)\<close> and piping a body into it: the parent directory
  must exist, the target must not be a directory; an existing regular file is replaced.
\<close>

fun writeFile :: "fsnode \<Rightarrow> lpath \<Rightarrow> string \<Rightarrow> error + fsnode" where
  "writeFile e [] body = Inl EISDIR"
| "writeFile (FileE b) (s # ss) body = Inl ENOTDIR"
| "writeFile (DirE es) [s] body =
     (case map_of es s of
        Some (DirE ds) \<Rightarrow> Inl EISDIR
      | _ \<Rightarrow> Inr (DirE (upd_entry s (FileE body) es)))"
| "writeFile (DirE es) (s # ss) body =
     (case map_of es s of
        None \<Rightarrow> Inl ENOENT
      | Some sub \<Rightarrow>
          (case writeFile sub ss body of
             Inl e \<Rightarrow> Inl e
           | Inr d \<Rightarrow> Inr (DirE (upd_entry s d es))))"

section \<open>Building the hierarchy from a local directory\<close>

text \<open>
  \<^verbatim>\<open>getFolderHierarchy(folderPath)\<close>: \<^verbatim>\<open>lstat\<close> the path, and for a directory map the
  function over \<^verbatim>\<open>readdir\<close>.  The recursive call on \<^verbatim>\<open>path.join(folderPath, child)\<close>
  stats the entry \<^verbatim>\<open>child\<close> of that directory, so the recursion runs over the subtree
  found at \<^verbatim>\<open>folderPath\<close> (lemmas \<open>getFolderHierarchy_child\<close> and
  \<open>getFolderHierarchy_unfold\<close> below).  A path that cannot be resolved fails.
\<close>

fun walk :: "lpath \<Rightarrow> fsnode \<Rightarrow> node" where
  "walk folderPath (FileE b) =
     FileN (path_basename folderPath) (path_string folderPath) False"
| "walk folderPath (DirE es) =
     FolderN (path_basename folderPath) (path_string folderPath) False
       (map (\<lambda>(child, sub). walk (path_join folderPath child) sub) es)"

definition getFolderHierarchy :: "fsnode \<Rightarrow> lpath \<Rightarrow> error + node" where
  "getFolderHierarchy fsys folderPath =
     (case fs_lookup fsys folderPath of
        None \<Rightarrow> Inl ENOENT
      | Some e \<Rightarrow> Inr (walk folderPath e))"

text \<open>Entry names of a directory: non-empty, no separator, not \<^verbatim>\<open>.\<close> or \<^verbatim>\<open>..\<close>, unique.\<close>

definition valid_name :: "string \<Rightarrow> bool" where
  "valid_name s = (s \<noteq> [] \<and> s \<noteq> ''.'' \<and> s \<noteq> ''..'' \<and> CHR ''/'' \<notin> set s)"

fun wf_fs :: "fsnode \<Rightarrow> bool" where
  "wf_fs (FileE b) = True"
| "wf_fs (DirE es) =
     (distinct (map fst es) \<and> list_all (\<lambda>(s, sub). valid_name s \<and> wf_fs sub) es)"

section \<open>The object store and the effects of a run\<close>

text \<open>
  What \<^verbatim>\<open>s3.send(new GetObjectCommand(...))\<close> does for a bucket and key: the promise
  rejects, or it resolves with a body stream that fails after some bytes, or with a
  body stream that ends.
\<close>

datatype s3_get = SendRejected | StreamFailed string | StreamEnded string

type_synonym s3_client = "string \<Rightarrow> string \<Rightarrow> s3_get"

datatype event =
    EvGetObject string string
  | EvCreateWriteStream lpath
  | EvCreateReadStream lpath
  | EvMkdir lpath
  | EvDigest

record world =
  fs :: fsnode
  trace :: "event list"

definition emit :: "event \<Rightarrow> world \<Rightarrow> world" where
  "emit ev w = w\<lparr>trace := trace w @ [ev]\<rparr>"

definition mkdir_recursive :: "lpath \<Rightarrow> world \<Rightarrow> error option \<times> world" where
  "mkdir_recursive p w =
     (case mkdirp (fs w) p of
        Inl e \<Rightarrow> (Some e, emit (EvMkdir p) w)
      | Inr f \<Rightarrow> (None, emit (EvMkdir p) (w\<lparr>fs := f\<rparr>)))"

text \<open>
  \<^verbatim>\<open>getFileContentFromS3\<close> (main.js, lines 389-412).  A rejected send and a failing body
  stream are caught: the function logs and returns \<^verbatim>\<open>null\<close> (\<open>Inr None\<close>).  A write
  stream that cannot be opened emits an error nobody listens to, outside the
  \<^verbatim>\<open>try\<close>: the run ends with that error (\<open>Inl\<close>).
\<close>

definition getFileContentFromS3 ::
  "s3_client \<Rightarrow> string \<Rightarrow> lpath \<Rightarrow> string \<Rightarrow> world \<Rightarrow> (error + lpath option) \<times> world" where
  "getFileContentFromS3 s3 filePath localFilePath bucketName w =
     (let w0 = emit (EvGetObject bucketName filePath) w in
      case s3 bucketName filePath of
        SendRejected \<Rightarrow> (Inr None, w0)
      | StreamFailed received \<Rightarrow>
          (case writeFile (fs w0) localFilePath received of
             Inl e \<Rightarrow> (Inl e, emit (EvCreateWriteStream localFilePath) w0)
           | Inr f \<Rightarrow> (Inr None, emit (EvCreateWriteStream localFilePath) (w0\<lparr>fs := f\<rparr>)))
      | StreamEnded body \<Rightarrow>
          (case writeFile (fs w0) localFilePath body of
             Inl e \<Rightarrow> (Inl e, emit (EvCreateWriteStream localFilePath) w0)
           | Inr f \<Rightarrow>
               (Inr (Some localFilePath),
                emit (EvCreateWriteStream localFilePath) (w0\<lparr>fs := f\<rparr>))))"

section \<open>Change detection\<close>

text \<open>
  \<open>H\<close> stands for \<^verbatim>\<open>crypto.createHash('sha256')\<close> fed with every chunk of a stream and
  read with \<^verbatim>\<open>digest('hex')\<close>: the hex digest of the bytes of the stream.

  \<^verbatim>\<open>calculateCloudFileHash\<close> (lines 330-352) returns \<^verbatim>\<open>null\<close> when the send is rejected;
  the promise it returns for the stream is not awaited inside the \<^verbatim>\<open>try\<close>, so a failing
  stream rejects the caller.  \<^verbatim>\<open>calculateLocalFileHash\<close> (lines 354-364) rejects when
  the read stream fails (a directory, a missing file).
\<close>

definition calculateCloudFileHash ::
  "s3_client \<Rightarrow> (string \<Rightarrow> string) \<Rightarrow> string \<Rightarrow> string \<Rightarrow> world
     \<Rightarrow> (error + string option) \<times> world" where
  "calculateCloudFileHash s3 H bucketName filePath w =
     (let w0 = emit (EvGetObject bucketName filePath) w in
      case s3 bucketName filePath of
        SendRejected \<Rightarrow> (Inr None, w0)
      | StreamFailed received \<Rightarrow> (Inl StreamError, w0)
      | StreamEnded body \<Rightarrow> (Inr (Some (H body)), emit EvDigest w0))"

definition calculateLocalFileHash ::
  "(string \<Rightarrow> string) \<Rightarrow> lpath \<Rightarrow> world \<Rightarrow> (error + string) \<times> world" where
  "calculateLocalFileHash H filePath w =
     (let w0 = emit (EvCreateReadStream filePath) w in
      case fs_lookup (fs w) filePath of
        None \<Rightarrow> (Inl ENOENT, w0)
      | Some (DirE es) \<Rightarrow> (Inl EISDIR, w0)
      | Some (FileE content) \<Rightarrow> (Inr (H content), emit EvDigest w0))"

definition isFileModified ::
  "s3_client \<Rightarrow> (string \<Rightarrow> string) \<Rightarrow> string \<Rightarrow> string \<Rightarrow> lpath \<Rightarrow> world
     \<Rightarrow> (error + bool) \<times> world" where
  "isFileModified s3 H bucketName filePath localFilePath w =
     (if \<not> existsSync (fs w) localFilePath then (Inr True, w)
      else
        (case calculateCloudFileHash s3 H bucketName filePath w of
           (Inl e, w1) \<Rightarrow> (Inl e, w1)
         | (Inr remoteHash, w1) \<Rightarrow>
             (case calculateLocalFileHash H localFilePath w1 of
                (Inl e, w2) \<Rightarrow> (Inl e, w2)
              | (Inr localHash, w2) \<Rightarrow> (Inr (remoteHash \<noteq> Some localHash), w2))))"

section \<open>Materialising a hierarchy: clone and pull\<close>

text \<open>
  \<^verbatim>\<open>cloneCloudRepo\<close> (lines 366-387).  For a missing file it fetches first and creates
  the parent directory afterwards, from the path \<^verbatim>\<open>getFileContentFromS3\<close> returned:
  \<^verbatim>\<open>path.dirname(null)\<close> raises a TypeError.  The \<^verbatim>\<open>for ... of\<close> loop over the children
  is \<open>cloneChildren\<close>; an error ends the run.
\<close>

fun cloneCloudRepo ::
    "s3_client \<Rightarrow> node \<Rightarrow> lpath \<Rightarrow> string \<Rightarrow> world \<Rightarrow> error option \<times> world"
  and cloneChildren ::
    "s3_client \<Rightarrow> node list \<Rightarrow> lpath \<Rightarrow> string \<Rightarrow> world \<Rightarrow> error option \<times> world" where
  "cloneCloudRepo s3 (FileN n p m) folderPath bucketName w =
     (let destinationPath = path_join folderPath n in
      if \<not> existsSync (fs w) destinationPath then
        (case getFileContentFromS3 s3 p destinationPath bucketName w of
           (Inl e, w1) \<Rightarrow> (Some e, w1)
         | (Inr None, w1) \<Rightarrow> (Some TypeError, w1)
         | (Inr (Some localFilePath), w1) \<Rightarrow>
             mkdir_recursive (path_dirname localFilePath) w1)
      else (None, w))"
| "cloneCloudRepo s3 (FolderN n p m cs) folderPath bucketName w =
     (let destinationPath = path_join folderPath n in
      case (if \<not> existsSync (fs w) destinationPath
            then mkdir_recursive destinationPath w else (None, w)) of
        (Some e, w1) \<Rightarrow> (Some e, w1)
      | (None, w1) \<Rightarrow> cloneChildren s3 cs destinationPath bucketName w1)"
| "cloneChildren s3 [] destinationPath bucketName w = (None, w)"
| "cloneChildren s3 (child # rest) destinationPath bucketName w =
     (case cloneCloudRepo s3 child destinationPath bucketName w of
        (Some e, w1) \<Rightarrow> (Some e, w1)
      | (None, w1) \<Rightarrow> cloneChildren s3 rest destinationPath bucketName w1)"

text \<open>
  \<^verbatim>\<open>pullCloudRepo\<close> (lines 290-315): the fetch is gated by \<^verbatim>\<open>isFileModified\<close>, the parent
  directory is created before the fetch, and the value \<^verbatim>\<open>getFileContentFromS3\<close> returns
  is dropped.
\<close>

fun pullCloudRepo ::
    "s3_client \<Rightarrow> (string \<Rightarrow> string) \<Rightarrow> node \<Rightarrow> lpath \<Rightarrow> string \<Rightarrow> world
       \<Rightarrow> error option \<times> world"
  and pullChildren ::
    "s3_client \<Rightarrow> (string \<Rightarrow> string) \<Rightarrow> node list \<Rightarrow> lpath \<Rightarrow> string \<Rightarrow> world
       \<Rightarrow> error option \<times> world" where
  "pullCloudRepo s3 H (FileN n p m) folderPath bucketName w =
     (let localFilePath = path_join folderPath n in
      case isFileModified s3 H bucketName p localFilePath w of
        (Inl e, w1) \<Rightarrow> (Some e, w1)
      | (Inr isModified, w1) \<Rightarrow>
          if isModified then
            (case mkdir_recursive (path_dirname localFilePath) w1 of
               (Some e, w2) \<Rightarrow> (Some e, w2)
             | (None, w2) \<Rightarrow>
                 (case getFileContentFromS3 s3 p localFilePath bucketName w2 of
                    (Inl e, w3) \<Rightarrow> (Some e, w3)
                  | (Inr r, w3) \<Rightarrow> (None, w3)))
          else (None, w1))"
| "pullCloudRepo s3 H (FolderN n p m cs) folderPath bucketName w =
     (let destinationPath = path_join folderPath n in
      case (if \<not> existsSync (fs w) destinationPath
            then mkdir_recursive destinationPath w else (None, w)) of
        (Some e, w1) \<Rightarrow> (Some e, w1)
      | (None, w1) \<Rightarrow> pullChildren s3 H cs destinationPath bucketName w1)"
| "pullChildren s3 H [] destinationPath bucketName w = (None, w)"
| "pullChildren s3 H (child # rest) destinationPath bucketName w =
     (case pullCloudRepo s3 H child destinationPath bucketName w of
        (Some e, w1) \<Rightarrow> (Some e, w1)
      | (None, w1) \<Rightarrow> pullChildren s3 H rest destinationPath bucketName w1)"

section \<open>Notions used to state the properties\<close>

text \<open>
  Walking down a hierarchy by child names, taking at each level the first child of that
  name, as \<^verbatim>\<open>children.find\<close> does.
\<close>

fun descend :: "node \<Rightarrow> string list \<Rightarrow> node option" where
  "descend h [] = Some h"
| "descend (FileN n p m) (s # ss) = None"
| "descend (FolderN n p m cs) (s # ss) =
     (case find (\<lambda>child. name child = s) cs of
        None \<Rightarrow> None
      | Some c \<Rightarrow> descend c ss)"

text \<open>
  Every folder below the node carries as \<open>path\<close> the names from the root down to it,
  joined with the separator (\<open>pre\<close> are the names down to the node itself).
\<close>

fun folder_paths_ok :: "string list \<Rightarrow> node \<Rightarrow> bool" where
  "folder_paths_ok pre (FileN n p m) = True"
| "folder_paths_ok pre (FolderN n p m cs) =
     (\<forall>c \<in> set cs. (\<not> is_file c \<longrightarrow> path c = join_sep (pre @ [name c]))
                    \<and> folder_paths_ok (pre @ [name c]) c)"

text \<open>The shape of a hierarchy: names, kinds and nesting, without paths and flags.\<close>

datatype shape = SFile string | SFolder string "shape list"

fun shape_of :: "node \<Rightarrow> shape" where
  "shape_of (FileN n p m) = SFile n"
| "shape_of (FolderN n p m cs) = SFolder n (map shape_of cs)"

text \<open>Kinds of file-system entries, and what a run leaves in place.\<close>

fun is_dir :: "fsnode \<Rightarrow> bool" where
  "is_dir (FileE b) = False"
| "is_dir (DirE es) = True"

text \<open>
  \<open>keeps_entries f f'\<close>: every path present in \<open>f\<close> is present in \<open>f'\<close> with the same kind.
\<close>

definition keeps_entries :: "fsnode \<Rightarrow> fsnode \<Rightarrow> bool" where
  "keeps_entries f f' =
     (\<forall>q e. fs_lookup f q = Some e \<longrightarrow> (\<exists>e'. fs_lookup f' q = Some e' \<and> is_dir e' = is_dir e))"

text \<open>
  The destination paths of the file nodes of a hierarchy, computed as \<^verbatim>\<open>cloneCloudRepo\<close>
  computes them: \<^verbatim>\<open>path.join\<close> of the folder path and the node's name, level by level.
\<close>

fun file_dests :: "lpath \<Rightarrow> node \<Rightarrow> lpath list" where
  "file_dests folderPath (FileN n p m) = [path_join folderPath n]"
| "file_dests folderPath (FolderN n p m cs) =
     concat (map (file_dests (path_join folderPath n)) cs)"

text \<open>
  \<open>only_mkdirs w w'\<close>: from \<open>w\<close> to \<open>w'\<close> the effects were directory creations only, and
  every regular file of \<open>w\<close> is in \<open>w'\<close> with the same bytes.
\<close>

definition only_mkdirs :: "world \<Rightarrow> world \<Rightarrow> bool" where
  "only_mkdirs w w' =
     ((\<exists>dirs. trace w' = trace w @ map EvMkdir dirs)
      \<and> (\<forall>q e. fs_lookup (fs w) q = Some e \<longrightarrow>
            (\<exists>e'. fs_lookup (fs w') q = Some e' \<and> (\<not> is_dir e \<longrightarrow> e' = e))))"

text \<open>No folder of the hierarchy has two children of the same name.\<close>

fun names_distinct :: "node \<Rightarrow> bool" where
  "names_distinct (FileN n p m) = True"
| "names_distinct (FolderN n p m cs) =
     (distinct (map name cs) \<and> (\<forall>c \<in> set cs. names_distinct c))"

text \<open>Some chain of children with these names leads down from the node.\<close>

fun has_path :: "node \<Rightarrow> string list \<Rightarrow> bool" where
  "has_path h [] = True"
| "has_path (FileN n p m) (s # ss) = False"
| "has_path (FolderN n p m cs) (s # ss) = (\<exists>c \<in> set cs. name c = s \<and> has_path c ss)"

text \<open>
  A condition on a listing: no key's segments are a prefix of, or equal to, the segments
  of a key listed before it.
\<close>

fun no_later_prefix :: "string list \<Rightarrow> bool" where
  "no_later_prefix [] = True"
| "no_later_prefix (key # keys) =
     ((\<forall>later \<in> set keys. \<not> prefix (split_sep later) (split_sep key))
      \<and> no_later_prefix keys)"




section \<open>Change detection: properties\<close>

text \<open>
  C1.  When the remote object is delivered with content \<open>R\<close> and a regular file with
  content \<open>L\<close> is at \<open>localFilePath\<close>, \<open>isFileModified\<close> returns a boolean, and it
  returns false exactly when the digest of \<open>R\<close> equals the digest of \<open>L\<close>.  When nothing
  exists at \<open>localFilePath\<close> it returns true and the world is unchanged: no object was
  requested, no file was read and no digest was computed.
\<close>

theorem isFileModified_iff_digests:
  "(s3 bucketName filePath = StreamEnded R \<and> fs_lookup (fs w) localFilePath = Some (FileE L)
      \<longrightarrow> (\<exists>v. fst (isFileModified s3 H bucketName filePath localFilePath w) = Inr v)
        \<and> ((fst (isFileModified s3 H bucketName filePath localFilePath w) = Inr False)
             = (H R = H L)))
   \<and> (fs_lookup (fs w) localFilePath = None
      \<longrightarrow> isFileModified s3 H bucketName filePath localFilePath w = (Inr True, w))"
  by (simp add: isFileModified_def existsSync_def calculateCloudFileHash_def
      calculateLocalFileHash_def Let_def emit_def)

theorem isFileModified_iff_digests_witness:
  "fst (isFileModified (\<lambda>b k. StreamEnded ''new'') (\<lambda>bytes. bytes) ''bucket'' ''a.txt''
          [''repo'', ''a.txt'']
          \<lparr>fs = DirE [(''repo'', DirE [(''a.txt'', FileE ''new'')])], trace = []\<rparr>)
     = Inr False
   \<and> fst (isFileModified (\<lambda>b k. StreamEnded ''new'') (\<lambda>bytes. bytes) ''bucket'' ''a.txt''
          [''repo'', ''a.txt'']
          \<lparr>fs = DirE [(''repo'', DirE [(''a.txt'', FileE ''old'')])], trace = []\<rparr>)
     = Inr True
   \<and> isFileModified (\<lambda>b k. StreamEnded ''new'') (\<lambda>bytes. bytes) ''bucket'' ''a.txt''
          [''repo'', ''a.txt'']
          \<lparr>fs = DirE [(''repo'', DirE [])], trace = []\<rparr>
     = (Inr True, \<lparr>fs = DirE [(''repo'', DirE [])], trace = []\<rparr>)"
  using
    isFileModified_iff_digests [of "\<lambda>b k. StreamEnded ''new''" "''bucket''" "''a.txt''" "''new''"
      "\<lparr>fs = DirE [(''repo'', DirE [(''a.txt'', FileE ''new'')])], trace = []\<rparr>"
      "[''repo'', ''a.txt'']" "''new''" "\<lambda>bytes. bytes"]
    isFileModified_iff_digests [of "\<lambda>b k. StreamEnded ''new''" "''bucket''" "''a.txt''" "''new''"
      "\<lparr>fs = DirE [(''repo'', DirE [(''a.txt'', FileE ''old'')])], trace = []\<rparr>"
      "[''repo'', ''a.txt'']" "''old''" "\<lambda>bytes. bytes"]
    isFileModified_iff_digests [of "\<lambda>b k. StreamEnded ''new''" "''bucket''" "''a.txt''" "''new''"
      "\<lparr>fs = DirE [(''repo'', DirE [])], trace = []\<rparr>"
      "[''repo'', ''a.txt'']" "''old''" "\<lambda>bytes. bytes"]
  by auto




section \<open>The builders: basic facts\<close>

lemma insertKey_root:
  "insertKey key pre parts h = Inr h' \<Longrightarrow>
     name h' = name h \<and> path h' = path h \<and> is_file h' = is_file h"
  by (cases "(key, pre, parts, h)" rule: insertKey.cases)
     (auto split: option.splits sum.splits)

lemma insertKeys_root:
  "insertKeys keys h = Inr h' \<Longrightarrow>
     name h' = name h \<and> path h' = path h \<and> is_file h' = is_file h"
proof (induction keys arbitrary: h)
  case Nil
  then show ?case by simp
next
  case (Cons k ks)
  then show ?case
    by (auto split: sum.splits dest!: insertKey_root)
qed

lemma path_string_nonempty: "path_string p \<noteq> []"
  by (cases p) (simp_all add: path_string_def)

lemma walk_root: "path (walk p e) = path_string p \<and> name (walk p e) = path_basename p"
  by (cases e) simp_all

text \<open>
  C7.  As stated the claim fails in local directory mode: \<^verbatim>\<open>getFolderHierarchy\<close> stores
  the path it was called with in the root node (\<^verbatim>\<open>path: folderPath\<close>), which is not the
  empty string.
\<close>

theorem root_path_local_counterexample:
  "getFolderHierarchy (DirE [(''repo'', DirE [])]) [''repo'']
     = Inr (FolderN ''repo'' ''/repo'' False [])
   \<and> path (FolderN ''repo'' ''/repo'' False []) \<noteq> []"
  by (simp add: getFolderHierarchy_def path_basename_def path_string_def)

text \<open>
  C7, amended.  A build call that succeeds returns one root node.  In remote listing
  mode the root is a folder named by the friendly name whose path is the empty string;
  in local directory mode the root's path is the path the call was given (never empty)
  and its name is the last segment of that path.
\<close>

theorem root_path:
  "(getBucketHierarchy friendlyName contents = Inr h
      \<longrightarrow> \<not> is_file h \<and> name h = friendlyName \<and> path h = [])
   \<and> (getFolderHierarchy fsys folderPath = Inr h'
      \<longrightarrow> name h' = path_basename folderPath \<and> path h' = path_string folderPath \<and> path h' \<noteq> [])"
  by (auto simp: getBucketHierarchy_def getFolderHierarchy_def walk_root path_string_nonempty
      split: option.splits dest!: insertKeys_root)

theorem root_path_witness:
  "path (FolderN ''repo'' [] False [FileN ''a.txt'' ''a.txt'' False]) = []
   \<and> path (FolderN ''repo'' ''/repo'' False []) = path_string [''repo'']"
proof -
  have b: "getBucketHierarchy ''repo'' (Some [''a.txt''])
             = Inr (FolderN ''repo'' [] False [FileN ''a.txt'' ''a.txt'' False])"
    by (simp add: getBucketHierarchy_def)
  have l: "getFolderHierarchy (DirE [(''repo'', DirE [])]) [''repo'']
             = Inr (FolderN ''repo'' ''/repo'' False [])"
    by (simp add: getFolderHierarchy_def path_basename_def path_string_def)
  from root_path [of "''repo''" "Some [''a.txt'']"
      "FolderN ''repo'' [] False [FileN ''a.txt'' ''a.txt'' False]"
      "DirE [(''repo'', DirE [])]" "[''repo'']" "FolderN ''repo'' ''/repo'' False []"] b l
  show ?thesis by blast
qed

section \<open>Hierarchy round trip\<close>

lemma split_sep_plain: "CHR ''/'' \<notin> set s \<Longrightarrow> split_sep s = [s]"
  by (induction s) auto

lemma path_join_plain:
  "CHR ''/'' \<notin> set s \<Longrightarrow> path_join p s = seg_step p s"
  by (simp add: path_join_def split_sep_plain)

text \<open>
  C3.  A local directory holding exactly \<^verbatim>\<open>a.txt\<close> and \<^verbatim>\<open>b/c.txt\<close> (whatever the file
  contents, the place of the directory and the order in which its two entries are
  enumerated) and the key listing \<^verbatim>\<open>a.txt\<close>, \<^verbatim>\<open>b/c.txt\<close> (in either order) both build
  a root folder whose children have the same shapes: the file \<^verbatim>\<open>a.txt\<close> and the folder
  \<^verbatim>\<open>b\<close> holding the file \<^verbatim>\<open>c.txt\<close>.  The root's own name is left out of the comparison.
\<close>

theorem hierarchy_round_trip:
  assumes "fs_lookup fsys folderPath = Some (DirE es)"
    and "es = [(''a.txt'', FileE x), (''b'', DirE [(''c.txt'', FileE y)])]
       \<or> es = [(''b'', DirE [(''c.txt'', FileE y)]), (''a.txt'', FileE x)]"
    and "keys = [''a.txt'', ''b/c.txt''] \<or> keys = [''b/c.txt'', ''a.txt'']"
  shows "\<exists>l r. getFolderHierarchy fsys folderPath = Inr l
             \<and> getBucketHierarchy friendlyName (Some keys) = Inr r
             \<and> \<not> is_file l \<and> \<not> is_file r
             \<and> mset (map shape_of (children l)) = mset (map shape_of (children r))
             \<and> mset (map shape_of (children l))
                 = {#SFile ''a.txt'', SFolder ''b'' [SFile ''c.txt'']#}"
  using assms
  by (auto simp: getFolderHierarchy_def getBucketHierarchy_def path_join_def seg_step_def
      path_basename_def)

theorem hierarchy_round_trip_witness:
  "\<exists>l r. getFolderHierarchy
             (DirE [(''home'', DirE [(''repo'',
                DirE [(''a.txt'', FileE ''A''), (''b'', DirE [(''c.txt'', FileE ''C'')])])])])
             [''home'', ''repo''] = Inr l
         \<and> getBucketHierarchy ''my repo'' (Some [''a.txt'', ''b/c.txt'']) = Inr r
         \<and> \<not> is_file l \<and> \<not> is_file r
         \<and> mset (map shape_of (children l)) = mset (map shape_of (children r))
         \<and> mset (map shape_of (children l))
             = {#SFile ''a.txt'', SFolder ''b'' [SFile ''c.txt'']#}"
proof -
  have a: "fs_lookup
             (DirE [(''home'', DirE [(''repo'',
                DirE [(''a.txt'', FileE ''A''), (''b'', DirE [(''c.txt'', FileE ''C'')])])])])
             [''home'', ''repo'']
           = Some (DirE [(''a.txt'', FileE ''A''), (''b'', DirE [(''c.txt'', FileE ''C'')])])"
    by simp
  have b: "[(''a.txt'', FileE ''A''), (''b'', DirE [(''c.txt'', FileE ''C'')])]
             = [(''a.txt'', FileE ''A''), (''b'', DirE [(''c.txt'', FileE ''C'')])]
         \<or> [(''a.txt'', FileE ''A''), (''b'', DirE [(''c.txt'', FileE ''C'')])]
             = [(''b'', DirE [(''c.txt'', FileE ''C'')]), (''a.txt'', FileE ''A'')]"
    by simp
  have c: "[''a.txt'', ''b/c.txt''] = [''a.txt'', ''b/c.txt'']
         \<or> [''a.txt'', ''b/c.txt''] = [''b/c.txt'', ''a.txt'']"
    by simp
  show ?thesis by (rule hierarchy_round_trip [OF a b c])
qed

section \<open>Keys and the nodes they produce\<close>

lemma find_append_new:
  "find P xs = None \<Longrightarrow> P y \<Longrightarrow> find P (xs @ [y]) = Some y"
  by (induction xs) (auto split: if_splits)

lemma find_append_old:
  "find P xs = Some x \<Longrightarrow> find P (xs @ ys) = Some x"
  by (induction xs) (auto split: if_splits)

lemma find_append_other:
  "\<not> P y \<Longrightarrow> find P (xs @ [y]) = find P xs"
  by (induction xs) auto

lemma find_replace_first_same:
  "find P xs = Some x \<Longrightarrow> P y \<Longrightarrow> find P (replace_first P y xs) = Some y"
  by (induction xs) (auto split: if_splits)

lemma find_replace_first_other:
  "(\<And>x. Q x \<Longrightarrow> \<not> P x) \<Longrightarrow> \<not> Q y \<Longrightarrow> find Q (replace_first P y xs) = find Q xs"
  by (induction xs) auto

lemma find_Some_P: "find P xs = Some x \<Longrightarrow> P x \<and> x \<in> set xs"
  by (induction xs) (auto split: if_splits)

lemma insertKey_places_file:
  "insertKey key pre parts h = Inr h' \<Longrightarrow>
     \<exists>n p m cs. descend h' (butlast parts) = Some (FolderN n p m cs)
        \<and> FileN (last parts) key False \<in> set cs"
proof (induction key pre parts h arbitrary: h' rule: insertKey.induct)
  case (4 key pre folderName r rs n p m cs)
  let ?P = "\<lambda>child. name child = folderName"
  show ?case
  proof (cases "find ?P cs")
    case None
    with "4.prems" obtain c' where
      c': "insertKey key (pre @ [folderName]) (r # rs)
             (FolderN folderName (join_sep (pre @ [folderName])) False []) = Inr c'"
      and h': "h' = FolderN n p m (cs @ [c'])"
      by (auto split: sum.splits)
    from insertKey_root [OF c'] have "name c' = folderName" by simp
    with None have "find ?P (cs @ [c']) = Some c'"
      by (simp add: find_append_new)
    with "4.IH"(1) [OF None c'] h' show ?thesis by simp
  next
    case (Some c)
    with "4.prems" obtain c' where
      c': "insertKey key (pre @ [folderName]) (r # rs) c = Inr c'"
      and h': "h' = FolderN n p m (replace_first ?P c' cs)"
      by (auto split: sum.splits)
    from Some have "name c = folderName" by (auto dest: find_Some_P)
    with insertKey_root [OF c'] have "name c' = folderName" by simp
    with Some have "find ?P (replace_first ?P c' cs) = Some c'"
      by (simp add: find_replace_first_same)
    with "4.IH"(2) [OF Some c'] h' show ?thesis by simp
  qed
qed auto

lemma set_replace_first_keeps:
  "find P xs = Some c \<Longrightarrow> x \<in> set xs \<Longrightarrow> x \<noteq> c \<Longrightarrow> x \<in> set (replace_first P y xs)"
  by (induction xs) (auto split: if_splits)

lemma set_replace_first_subset: "set (replace_first P y xs) \<subseteq> insert y (set xs)"
  by (induction xs) auto

lemma insertKey_file_fails: "is_file h \<Longrightarrow> insertKey key pre parts h \<noteq> Inr h'"
  by (cases h) simp_all

lemma insertKey_keeps_folder:
  "insertKey key pre parts h = Inr h' \<Longrightarrow> descend h ns = Some (FolderN n p m cs) \<Longrightarrow>
     \<exists>cs'. descend h' ns = Some (FolderN n p m cs')
        \<and> (\<forall>f \<in> set cs. is_file f \<longrightarrow> f \<in> set cs')"
proof (induction key pre parts h arbitrary: h' ns n p m cs rule: insertKey.induct)
  case (3 key pre fileName n0 p0 m0 cs0)
  then show ?case
    by (cases ns) (auto split: option.splits simp: find_append_old)
next
  case (4 key pre folderName r rs n0 p0 m0 cs0)
  let ?P = "\<lambda>child. name child = folderName"
  show ?case
  proof (cases "find ?P cs0")
    case None
    with "4.prems"(1) obtain c' where
      h': "h' = FolderN n0 p0 m0 (cs0 @ [c'])"
      by (auto split: sum.splits)
    with "4.prems"(2) show ?thesis
      by (cases ns) (auto split: option.splits simp: find_append_old)
  next
    case (Some c0)
    with "4.prems"(1) obtain c' where
      c': "insertKey key (pre @ [folderName]) (r # rs) c0 = Inr c'"
      and h': "h' = FolderN n0 p0 m0 (replace_first ?P c' cs0)"
      by (auto split: sum.splits)
    from Some have nc0: "name c0 = folderName" by (auto dest: find_Some_P)
    with insertKey_root [OF c'] have nc': "name c' = folderName" by simp
    from c' have folder0: "\<not> is_file c0" using insertKey_file_fails by blast
    show ?thesis
    proof (cases ns)
      case Nil
      with "4.prems"(2) have eq: "n = n0" "p = p0" "m = m0" "cs = cs0" by simp_all
      have "\<forall>f \<in> set cs0. is_file f \<longrightarrow> f \<in> set (replace_first ?P c' cs0)"
        using Some folder0 by (auto intro: set_replace_first_keeps)
      with Nil h' eq show ?thesis by simp
    next
      case (Cons s ss)
      show ?thesis
      proof (cases "s = folderName")
        case True
        with Cons "4.prems"(2) Some have "descend c0 ss = Some (FolderN n p m cs)" by simp
        from "4.IH"(2) [OF Some c' this] obtain cs' where
          "descend c' ss = Some (FolderN n p m cs')"
          "\<forall>f \<in> set cs. is_file f \<longrightarrow> f \<in> set cs'" by blast
        moreover have "find ?P (replace_first ?P c' cs0) = Some c'"
          using Some nc' by (simp add: find_replace_first_same)
        ultimately show ?thesis using Cons True h' by auto
      next
        case False
        have "find (\<lambda>child. name child = s) (replace_first ?P c' cs0)
                = find (\<lambda>child. name child = s) cs0"
          using False nc' by (intro find_replace_first_other) auto
        with Cons "4.prems"(2) h' show ?thesis by auto
      qed
    qed
  qed
qed auto

lemma insertKeys_keeps_file:
  "insertKeys keys h = Inr h' \<Longrightarrow> descend h ns = Some (FolderN n p m cs) \<Longrightarrow>
     f \<in> set cs \<Longrightarrow> is_file f \<Longrightarrow>
     \<exists>cs'. descend h' ns = Some (FolderN n p m cs') \<and> f \<in> set cs'"
proof (induction keys arbitrary: h cs)
  case Nil
  then show ?case by simp
next
  case (Cons k ks)
  from Cons.prems(1) obtain h1 where
    h1: "insertKey k [] (split_sep k) h = Inr h1" and rest: "insertKeys ks h1 = Inr h'"
    by (auto split: sum.splits)
  from insertKey_keeps_folder [OF h1 Cons.prems(2)] Cons.prems(3,4) obtain cs1 where
    "descend h1 ns = Some (FolderN n p m cs1)" "f \<in> set cs1" by blast
  from Cons.IH [OF rest this Cons.prems(4)] show ?case .
qed

lemma insertKeys_places_file:
  "insertKeys keys h = Inr h' \<Longrightarrow> key \<in> set keys \<Longrightarrow>
     \<exists>n p m cs. descend h' (butlast (split_sep key)) = Some (FolderN n p m cs)
        \<and> FileN (last (split_sep key)) key False \<in> set cs"
proof (induction keys arbitrary: h)
  case Nil
  then show ?case by simp
next
  case (Cons k ks)
  from Cons.prems(1) obtain h1 where
    h1: "insertKey k [] (split_sep k) h = Inr h1" and rest: "insertKeys ks h1 = Inr h'"
    by (auto split: sum.splits)
  show ?case
  proof (cases "key = k")
    case True
    from insertKey_places_file [OF h1] obtain n p m cs where
      "descend h1 (butlast (split_sep k)) = Some (FolderN n p m cs)"
      "FileN (last (split_sep k)) k False \<in> set cs" by blast
    from insertKeys_keeps_file [OF rest this] True show ?thesis by auto
  next
    case False
    with Cons.prems(2) have "key \<in> set ks" by simp
    from Cons.IH [OF rest this] show ?thesis .
  qed
qed

lemma split_sep_nonempty: "split_sep s \<noteq> []"
  by (induction s) (auto split: list.splits)

lemma join_sep_Cons_char: "ps \<noteq> [] \<Longrightarrow> join_sep ((c # hd ps) # tl ps) = c # join_sep ps"
  by (cases ps; cases "tl ps") auto

lemma join_split_sep: "join_sep (split_sep s) = s"
proof (induction s)
  case Nil
  show ?case by simp
next
  case (Cons c s)
  obtain p ps where ps: "split_sep s = p # ps"
    using split_sep_nonempty [of s] by (cases "split_sep s") auto
  show ?case
  proof (cases "c = CHR ''/''")
    case True
    with Cons ps show ?thesis by simp
  next
    case False
    with Cons ps join_sep_Cons_char [of "p # ps" c] show ?thesis by simp
  qed
qed

lemma split_sep_snoc_sep: "split_sep (s @ ''/'') = split_sep s @ [[]]"
  by (induction s) (auto split: list.splits simp: split_sep_nonempty)

lemma insertKey_folder_paths_ok:
  "insertKey key pre parts h = Inr h' \<Longrightarrow> folder_paths_ok pre h \<Longrightarrow> folder_paths_ok pre h'"
proof (induction key pre parts h arbitrary: h' rule: insertKey.induct)
  case (4 key pre folderName r rs n p m cs)
  let ?P = "\<lambda>child. name child = folderName"
  show ?case
  proof (cases "find ?P cs")
    case None
    with "4.prems"(1) obtain c' where
      c': "insertKey key (pre @ [folderName]) (r # rs)
             (FolderN folderName (join_sep (pre @ [folderName])) False []) = Inr c'"
      and h': "h' = FolderN n p m (cs @ [c'])"
      by (auto split: sum.splits)
    from insertKey_root [OF c'] have "name c' = folderName"
      "path c' = join_sep (pre @ [folderName])" by simp_all
    moreover from "4.IH"(1) [OF None c'] have "folder_paths_ok (pre @ [folderName]) c'" by simp
    ultimately show ?thesis using h' "4.prems"(2) by auto
  next
    case (Some c0)
    with "4.prems"(1) obtain c' where
      c': "insertKey key (pre @ [folderName]) (r # rs) c0 = Inr c'"
      and h': "h' = FolderN n p m (replace_first ?P c' cs)"
      by (auto split: sum.splits)
    from Some have c0: "name c0 = folderName" "c0 \<in> set cs" by (auto dest: find_Some_P)
    with "4.prems"(2) have ok0: "\<not> is_file c0 \<longrightarrow> path c0 = join_sep (pre @ [folderName])"
      "folder_paths_ok (pre @ [folderName]) c0" by auto
    from insertKey_root [OF c'] c0 ok0 have
      "name c' = folderName" "\<not> is_file c' \<longrightarrow> path c' = join_sep (pre @ [folderName])"
      by simp_all
    moreover from "4.IH"(2) [OF Some c' ok0(2)] have "folder_paths_ok (pre @ [folderName]) c'" .
    ultimately show ?thesis
      using h' "4.prems"(2) set_replace_first_subset [of ?P c' cs] by auto
  qed
qed auto

lemma insertKeys_folder_paths_ok:
  "insertKeys keys h = Inr h' \<Longrightarrow> folder_paths_ok [] h \<Longrightarrow> folder_paths_ok [] h'"
  by (induction keys arbitrary: h) (auto split: sum.splits dest: insertKey_folder_paths_ok)

lemma descend_folder_path:
  "folder_paths_ok pre h \<Longrightarrow> descend h ns = Some c \<Longrightarrow> ns \<noteq> [] \<Longrightarrow>
     name c = last ns \<and> (\<not> is_file c \<longrightarrow> path c = join_sep (pre @ ns))"
proof (induction ns arbitrary: pre h)
  case Nil
  then show ?case by simp
next
  case (Cons s ss)
  from Cons.prems(2) obtain n p m cs c1 where
    h: "h = FolderN n p m cs" and c1: "find (\<lambda>child. name child = s) cs = Some c1"
    and d: "descend c1 ss = Some c"
    by (cases h) (auto split: option.splits)
  from c1 have n1: "name c1 = s" "c1 \<in> set cs" by (auto dest: find_Some_P)
  with Cons.prems(1) h have ok1: "\<not> is_file c1 \<longrightarrow> path c1 = join_sep (pre @ [s])"
    "folder_paths_ok (pre @ [s]) c1" by auto
  show ?case
  proof (cases "ss = []")
    case True
    with d n1 ok1 show ?thesis by simp
  next
    case False
    from Cons.IH [OF ok1(2) d False] False show ?thesis by simp
  qed
qed

text \<open>
  C10.  For a key made of a folder path and a trailing separator, whatever else is in
  the listing, a build that succeeds holds the folder node named by the last segment
  of that folder path, with the folder path as its \<open>path\<close>, and among its children a
  file node with the empty name and the whole key as its \<open>path\<close>.
\<close>

theorem placeholder_key_file_node:
  assumes "getBucketHierarchy friendlyName (Some keys) = Inr h"
    and "key \<in> set keys"
    and "key = folder @ ''/''"
  shows "\<exists>m cs. descend h (split_sep folder)
                   = Some (FolderN (last (split_sep folder)) folder m cs)
               \<and> FileN [] key False \<in> set cs"
proof -
  from assms(1) have ins: "insertKeys keys (FolderN friendlyName [] False []) = Inr h"
    by (simp add: getBucketHierarchy_def)
  have parts: "butlast (split_sep key) = split_sep folder" "last (split_sep key) = []"
    using assms(3) by (simp_all add: split_sep_snoc_sep)
  from insertKeys_places_file [OF ins assms(2)] parts obtain n p m cs where
    d: "descend h (split_sep folder) = Some (FolderN n p m cs)"
    and f: "FileN [] key False \<in> set cs" by auto
  have "folder_paths_ok [] h"
    using insertKeys_folder_paths_ok [OF ins] by simp
  from descend_folder_path [OF this d split_sep_nonempty]
  have "n = last (split_sep folder)" "p = folder"
    by (simp_all add: join_split_sep)
  with d f show ?thesis by blast
qed

theorem placeholder_key_file_node_witness:
  "getBucketHierarchy ''repo'' (Some [''a.txt'', ''docs/'']) =
     Inr (FolderN ''repo'' [] False
            [FileN ''a.txt'' ''a.txt'' False,
             FolderN ''docs'' ''docs'' False [FileN [] ''docs/'' False]])
   \<and> (\<exists>m cs. descend (FolderN ''repo'' [] False
            [FileN ''a.txt'' ''a.txt'' False,
             FolderN ''docs'' ''docs'' False [FileN [] ''docs/'' False]]) (split_sep ''docs'')
                   = Some (FolderN (last (split_sep ''docs'')) ''docs'' m cs)
               \<and> FileN [] ''docs/'' False \<in> set cs)"
proof -
  have b: "getBucketHierarchy ''repo'' (Some [''a.txt'', ''docs/'']) =
     Inr (FolderN ''repo'' [] False
            [FileN ''a.txt'' ''a.txt'' False,
             FolderN ''docs'' ''docs'' False [FileN [] ''docs/'' False]])"
    by (simp add: getBucketHierarchy_def)
  have k: "''docs/'' \<in> set [''a.txt'', ''docs/'']" by simp
  have e: "''docs/'' = ''docs'' @ ''/''" by simp
  from b placeholder_key_file_node [OF b k e] show ?thesis by (rule conjI)
qed

section \<open>The file system under mkdir and write\<close>

lemma map_of_upd_entry: "map_of (upd_entry s e es) = (map_of es)(s \<mapsto> e)"
  by (induction es) (auto simp: fun_eq_iff)

lemma fs_lookup_case:
  "fs_lookup e q =
     (case q of
        [] \<Rightarrow> Some e
      | s # ss \<Rightarrow>
          (case e of
             FileE b \<Rightarrow> None
           | DirE es \<Rightarrow> (case map_of es s of None \<Rightarrow> None | Some sub \<Rightarrow> fs_lookup sub ss)))"
  by (cases q; cases e) simp_all

lemma mkdirp_keeps:
  "mkdirp f p = Inr f' \<Longrightarrow> fs_lookup f q = Some e \<Longrightarrow>
     \<exists>e'. fs_lookup f' q = Some e' \<and> is_dir e' = is_dir e \<and> (\<not> is_dir e \<longrightarrow> e' = e)"
proof (induction f p arbitrary: f' q e rule: mkdirp.induct)
  case (4 es s ss)
  show ?case
  proof (cases q)
    case Nil
    with "4.prems" show ?thesis by (auto split: option.splits sum.splits)
  next
    case (Cons t ts)
    show ?thesis
    proof (cases "t = s")
      case False
      with Cons "4.prems" show ?thesis
        by (auto split: option.splits sum.splits simp: map_of_upd_entry)
    next
      case True
      with Cons "4.prems"(2) obtain sub where
        sub: "map_of es s = Some sub" and l: "fs_lookup sub ts = Some e"
        by (auto split: option.splits)
      with "4.prems"(1) obtain d where d: "mkdirp sub ss = Inr d"
        and f': "f' = DirE (upd_entry s d es)"
        by (auto split: sum.splits)
      from "4.IH"(2) [OF sub d l] Cons True f' show ?thesis
        by (simp add: map_of_upd_entry)
    qed
  qed
qed auto


lemma writeFile_keeps:
  "writeFile f p body = Inr f' \<Longrightarrow> fs_lookup f q = Some e \<Longrightarrow>
     \<exists>e'. fs_lookup f' q = Some e' \<and> is_dir e' = is_dir e"
proof (induction f p body arbitrary: f' q e rule: writeFile.induct)
  case (3 es s body)
  show ?case
  proof (cases q)
    case Nil
    with "3.prems" show ?thesis by (auto split: option.splits fsnode.splits)
  next
    case (Cons t ts)
    show ?thesis
    proof (cases "t = s")
      case False
      with Cons "3.prems" show ?thesis
        by (auto split: option.splits fsnode.splits simp: map_of_upd_entry)
    next
      case True
      with Cons "3.prems" show ?thesis
        by (cases ts) (auto split: option.splits fsnode.splits simp: map_of_upd_entry)
    qed
  qed
next
  case (4 es s v va body)
  show ?case
  proof (cases q)
    case Nil
    with "4.prems" show ?thesis by (auto split: option.splits sum.splits)
  next
    case (Cons t ts)
    show ?thesis
    proof (cases "t = s")
      case False
      with Cons "4.prems" show ?thesis
        by (auto split: option.splits sum.splits simp: map_of_upd_entry)
    next
      case True
      with Cons "4.prems"(2) obtain sub where
        sub: "map_of es s = Some sub" and l: "fs_lookup sub ts = Some e"
        by (auto split: option.splits)
      with "4.prems"(1) obtain d where d: "writeFile sub (v # va) body = Inr d"
        and f': "f' = DirE (upd_entry s d es)"
        by (auto split: sum.splits)
      from "4.IH" [OF sub d l] Cons True f' show ?thesis
        by (simp add: map_of_upd_entry)
    qed
  qed
qed auto


lemma upd_entry_same: "map_of es s = Some e \<Longrightarrow> upd_entry s e es = es"
  by (induction es) (auto split: if_splits)

lemma mkdirp_existing: "fs_lookup f p = Some (DirE ds) \<Longrightarrow> mkdirp f p = Inr f"
  by (induction f p rule: mkdirp.induct)
     (auto split: option.splits simp: upd_entry_same)

section \<open>Clone and pull keep what is there\<close>

lemma keeps_entries_refl: "keeps_entries f f"
  by (simp add: keeps_entries_def)

lemma keeps_entries_trans:
  "keeps_entries f g \<Longrightarrow> keeps_entries g h \<Longrightarrow> keeps_entries f h"
  unfolding keeps_entries_def by metis

lemma mkdir_recursive_keeps:
  "mkdir_recursive p w = (r, w') \<Longrightarrow> keeps_entries (fs w) (fs w')"
  unfolding keeps_entries_def mkdir_recursive_def emit_def
  by (auto split: sum.splits dest: mkdirp_keeps)


lemma getFileContentFromS3_keeps:
  "getFileContentFromS3 s3 k lp b w = (r, w') \<Longrightarrow> keeps_entries (fs w) (fs w')"
  unfolding keeps_entries_def getFileContentFromS3_def emit_def Let_def
  by (auto split: sum.splits s3_get.splits dest: writeFile_keeps)


lemma isFileModified_fs: "fs (snd (isFileModified s3 H b k lp w)) = fs w"
  by (auto simp: isFileModified_def calculateCloudFileHash_def calculateLocalFileHash_def
      emit_def Let_def split: s3_get.splits option.splits fsnode.splits)


lemma pullCloudRepo_keeps:
  "keeps_entries (fs w) (fs (snd (pullCloudRepo s3 H h fp b w)))"
  "keeps_entries (fs w) (fs (snd (pullChildren s3 H cs fp b w)))"
proof (induction s3 H h fp b w and s3 H cs fp b w rule: pullCloudRepo_pullChildren.induct)
  case (1 s3 H n p m folderPath bucketName w)
  let ?lp = "path_join folderPath n"
  obtain r1 w1 where s1: "isFileModified s3 H bucketName p ?lp w = (r1, w1)"
    by (cases "isFileModified s3 H bucketName p ?lp w") auto
  with isFileModified_fs [of s3 H bucketName p ?lp w] have f1: "fs w1 = fs w" by simp
  obtain r2 w2 where s2: "mkdir_recursive (path_dirname ?lp) w1 = (r2, w2)"
    by (cases "mkdir_recursive (path_dirname ?lp) w1") auto
  then have k2: "keeps_entries (fs w) (fs w2)"
    using f1 by (auto dest: mkdir_recursive_keeps)
  obtain r3 w3 where s3: "getFileContentFromS3 s3 p ?lp bucketName w2 = (r3, w3)"
    by (cases "getFileContentFromS3 s3 p ?lp bucketName w2") auto
  then have k3: "keeps_entries (fs w) (fs w3)"
    using k2 by (auto dest: getFileContentFromS3_keeps intro: keeps_entries_trans)
  show ?case
    using s1 f1 s2 k2 s3 k3
    by (auto simp: Let_def keeps_entries_refl split: sum.splits option.splits)
next
  case (2 s3 H n p m cs folderPath bucketName w)
  let ?d = "path_join folderPath n"
  obtain r1 w1 where
    s1: "(if \<not> existsSync (fs w) ?d then mkdir_recursive ?d w else (None, w)) = (r1, w1)"
    by (cases "if \<not> existsSync (fs w) ?d then mkdir_recursive ?d w else (None, w)") auto
  then have k1: "keeps_entries (fs w) (fs w1)"
    by (auto split: if_splits simp: keeps_entries_refl dest: mkdir_recursive_keeps)
  show ?case
  proof (cases r1)
    case None
    from "2.IH" [OF refl s1 [symmetric] None] k1 s1 None show ?thesis
      by (auto simp: Let_def intro: keeps_entries_trans)
  next
    case (Some e)
    with s1 k1 show ?thesis by (simp add: Let_def)
  qed
next
  case (3 s3 H destinationPath bucketName w)
  show ?case by (simp add: keeps_entries_refl)
next
  case (4 s3 H child rest destinationPath bucketName w)
  obtain r1 w1 where s1: "pullCloudRepo s3 H child destinationPath bucketName w = (r1, w1)"
    by (cases "pullCloudRepo s3 H child destinationPath bucketName w") auto
  with "4.IH"(1) have k1: "keeps_entries (fs w) (fs w1)" by simp
  show ?case
  proof (cases r1)
    case None
    from "4.IH"(2) [OF s1 [symmetric] None] k1 s1 None show ?thesis
      by (auto intro: keeps_entries_trans)
  next
    case (Some e)
    with s1 k1 show ?thesis by simp
  qed
qed

lemma only_mkdirs_refl: "only_mkdirs w w"
  unfolding only_mkdirs_def by (auto intro: exI [of _ "[]"])

lemma only_mkdirs_trans:
  assumes "only_mkdirs a b" and "only_mkdirs b c"
  shows "only_mkdirs a c"
proof -
  from assms obtain d1 d2 where
    "trace b = trace a @ map EvMkdir d1" "trace c = trace b @ map EvMkdir d2"
    unfolding only_mkdirs_def by blast
  then have "trace c = trace a @ map EvMkdir (d1 @ d2)" by simp
  then have t: "\<exists>dirs. trace c = trace a @ map EvMkdir dirs" ..
  have "\<exists>e'. fs_lookup (fs c) q = Some e' \<and> (\<not> is_dir e \<longrightarrow> e' = e)"
    if "fs_lookup (fs a) q = Some e" for q e
  proof -
    from that assms(1) obtain e1 where
      e1: "fs_lookup (fs b) q = Some e1" "\<not> is_dir e \<longrightarrow> e1 = e"
      unfolding only_mkdirs_def by blast
    with assms(2) obtain e2 where
      "fs_lookup (fs c) q = Some e2" "\<not> is_dir e1 \<longrightarrow> e2 = e1"
      unfolding only_mkdirs_def by blast
    with e1 show ?thesis by auto
  qed
  with t show ?thesis unfolding only_mkdirs_def by blast
qed

lemma only_mkdirs_exists:
  "only_mkdirs w w' \<Longrightarrow> existsSync (fs w) q \<Longrightarrow> existsSync (fs w') q"
  unfolding only_mkdirs_def existsSync_def by fastforce

lemma mkdir_recursive_only_mkdirs: "only_mkdirs w (snd (mkdir_recursive p w))"
proof -
  have "trace (snd (mkdir_recursive p w)) = trace w @ map EvMkdir [p]"
    by (simp add: mkdir_recursive_def emit_def split: sum.splits)
  then have "\<exists>dirs. trace (snd (mkdir_recursive p w)) = trace w @ map EvMkdir dirs" ..
  moreover have "\<exists>e'. fs_lookup (fs (snd (mkdir_recursive p w))) q = Some e'
                   \<and> (\<not> is_dir e \<longrightarrow> e' = e)"
    if "fs_lookup (fs w) q = Some e" for q e
    using that mkdirp_keeps [of "fs w" p _ q e]
    by (auto simp: mkdir_recursive_def emit_def split: sum.splits)
  ultimately show ?thesis unfolding only_mkdirs_def by blast
qed

lemma clone_cloned_only_mkdirs:
  "(\<forall>d \<in> set (file_dests fp h). existsSync (fs w) d) \<Longrightarrow>
     only_mkdirs w (snd (cloneCloudRepo s3 h fp b w))"
  "(\<forall>c \<in> set cs. \<forall>d \<in> set (file_dests fp c). existsSync (fs w) d) \<Longrightarrow>
     only_mkdirs w (snd (cloneChildren s3 cs fp b w))"
proof (induction s3 h fp b w and s3 cs fp b w rule: cloneCloudRepo_cloneChildren.induct)
  case (1 s3 n p m folderPath bucketName w)
  then show ?case by (simp add: only_mkdirs_refl)
next
  case (2 s3 n p m cs folderPath bucketName w)
  let ?d = "path_join folderPath n"
  obtain r1 w1 where
    s1: "(if \<not> existsSync (fs w) ?d then mkdir_recursive ?d w else (None, w)) = (r1, w1)"
    by (cases "if \<not> existsSync (fs w) ?d then mkdir_recursive ?d w else (None, w)") auto
  have k1: "only_mkdirs w w1"
  proof (cases "existsSync (fs w) ?d")
    case True
    with s1 show ?thesis by (simp add: only_mkdirs_refl)
  next
    case False
    with s1 mkdir_recursive_only_mkdirs [of w ?d] show ?thesis by simp
  qed
  show ?case
  proof (cases r1)
    case None
    from "2.prems" have "\<forall>c \<in> set cs. \<forall>d \<in> set (file_dests ?d c). existsSync (fs w1) d"
      using only_mkdirs_exists [OF k1] by auto
    from "2.IH" [OF refl s1 [symmetric] None this] k1 s1 None show ?thesis
      by (auto simp: Let_def intro: only_mkdirs_trans)
  next
    case (Some e)
    with s1 k1 show ?thesis by (simp add: Let_def)
  qed
next
  case (3 s3 destinationPath bucketName w)
  show ?case by (simp add: only_mkdirs_refl)
next
  case (4 s3 child rest destinationPath bucketName w)
  obtain r1 w1 where s1: "cloneCloudRepo s3 child destinationPath bucketName w = (r1, w1)"
    by (cases "cloneCloudRepo s3 child destinationPath bucketName w") auto
  with "4.IH"(1) "4.prems" have k1: "only_mkdirs w w1" by simp
  show ?case
  proof (cases r1)
    case None
    from "4.prems" have
      "\<forall>c \<in> set rest. \<forall>d \<in> set (file_dests destinationPath c). existsSync (fs w1) d"
      using only_mkdirs_exists [OF k1] by auto
    from "4.IH"(2) [OF s1 [symmetric] None this] k1 s1 None show ?thesis
      by (auto intro: only_mkdirs_trans)
  next
    case (Some e)
    with s1 k1 show ?thesis by simp
  qed
qed

text \<open>
  C8.  Whatever the hierarchy, the local state and the outcome of the run (also when it
  ends with an error), every path present before \<open>pullCloudRepo\<close> is present after it,
  as an entry of the same kind: the set of local paths only grows.
\<close>

theorem pull_never_deletes:
  "{q. existsSync (fs w) q}
     \<subseteq> {q. existsSync (fs (snd (pullCloudRepo s3 H h folderPath bucketName w))) q}
   \<and> (\<forall>q e. fs_lookup (fs w) q = Some e \<longrightarrow>
         (\<exists>e'. fs_lookup (fs (snd (pullCloudRepo s3 H h folderPath bucketName w))) q = Some e'
               \<and> is_dir e' = is_dir e))"
  using pullCloudRepo_keeps(1) [of w s3 H h folderPath bucketName]
  unfolding keeps_entries_def existsSync_def by fastforce

theorem pull_never_deletes_witness:
  "existsSync (fs (snd (pullCloudRepo (\<lambda>b k. StreamEnded ''new'') (\<lambda>bytes. bytes)
        (FolderN ''repo'' [] False [FileN ''readme.txt'' ''readme.txt'' False]) [] ''bucket''
        \<lparr>fs = DirE [(''repo'', DirE [(''readme.txt'', FileE ''old''),
                                      (''notes.txt'', FileE ''mine'')])], trace = []\<rparr>)))
     [''repo'', ''notes.txt'']"
proof -
  let ?w = "\<lparr>fs = DirE [(''repo'', DirE [(''readme.txt'', FileE ''old''),
                                      (''notes.txt'', FileE ''mine'')])], trace = []\<rparr>"
  have a: "existsSync (fs ?w) [''repo'', ''notes.txt'']"
    by (simp add: existsSync_def)
  from pull_never_deletes [of ?w "\<lambda>b k. StreamEnded ''new''" "\<lambda>bytes. bytes"
      "FolderN ''repo'' [] False [FileN ''readme.txt'' ''readme.txt'' False]" "[]" "''bucket''"] a
  show ?thesis by blast
qed

text \<open>
  C4.  When the destination path of every file node of the hierarchy exists before
  \<open>cloneCloudRepo\<close> starts, the effects of the run are directory creations only: no
  object is requested and no write stream is opened; and every regular file present
  before is present after with the same bytes.
\<close>

theorem clone_of_cloned_tree_writes_nothing:
  assumes "\<forall>d \<in> set (file_dests folderPath h). existsSync (fs w) d"
  shows "(\<exists>dirs. trace (snd (cloneCloudRepo s3 h folderPath bucketName w))
                    = trace w @ map EvMkdir dirs)
       \<and> (\<forall>q content. fs_lookup (fs w) q = Some (FileE content) \<longrightarrow>
             fs_lookup (fs (snd (cloneCloudRepo s3 h folderPath bucketName w))) q
               = Some (FileE content))"
proof -
  from clone_cloned_only_mkdirs(1) [OF assms]
  have o: "only_mkdirs w (snd (cloneCloudRepo s3 h folderPath bucketName w))" .
  then have "\<exists>dirs. trace (snd (cloneCloudRepo s3 h folderPath bucketName w))
                    = trace w @ map EvMkdir dirs"
    unfolding only_mkdirs_def by blast
  moreover have "fs_lookup (fs (snd (cloneCloudRepo s3 h folderPath bucketName w))) q
               = Some (FileE content)"
    if "fs_lookup (fs w) q = Some (FileE content)" for q content
    using o that unfolding only_mkdirs_def by fastforce
  ultimately show ?thesis by blast
qed

theorem clone_of_cloned_tree_writes_nothing_witness:
  "(\<exists>dirs. trace (snd (cloneCloudRepo (\<lambda>b k. StreamEnded ''new'')
        (FolderN ''repo'' [] False [FileN ''a.txt'' ''a.txt'' False]) [] ''bucket''
        \<lparr>fs = DirE [(''repo'', DirE [(''a.txt'', FileE ''old'')])], trace = []\<rparr>))
      = trace \<lparr>fs = DirE [(''repo'', DirE [(''a.txt'', FileE ''old'')])], trace = []\<rparr>
          @ map EvMkdir dirs)
   \<and> fs_lookup (fs (snd (cloneCloudRepo (\<lambda>b k. StreamEnded ''new'')
        (FolderN ''repo'' [] False [FileN ''a.txt'' ''a.txt'' False]) [] ''bucket''
        \<lparr>fs = DirE [(''repo'', DirE [(''a.txt'', FileE ''old'')])], trace = []\<rparr>)))
        [''repo'', ''a.txt''] = Some (FileE ''old'')"
proof -
  let ?w = "\<lparr>fs = DirE [(''repo'', DirE [(''a.txt'', FileE ''old'')])], trace = []\<rparr>"
  let ?h = "FolderN ''repo'' [] False [FileN ''a.txt'' ''a.txt'' False]"
  have a: "\<forall>d \<in> set (file_dests [] ?h). existsSync (fs ?w) d"
    by (simp add: path_join_def seg_step_def existsSync_def)
  have l: "fs_lookup (fs ?w) [''repo'', ''a.txt''] = Some (FileE ''old'')" by simp
  from clone_of_cloned_tree_writes_nothing [OF a, of "\<lambda>b k. StreamEnded ''new''" "''bucket''"] l
  show ?thesis by blast
qed

section \<open>A fetch that fails\<close>

text \<open>
  C5.  As stated the claim fails: when the request for a listed object is rejected,
  \<open>pullCloudRepo\<close> completes without an error and without the file, and
  \<open>cloneCloudRepo\<close> ends with the TypeError of \<^verbatim>\<open>path.dirname(null)\<close>, which is not a
  fetch error and does not name the path.
\<close>

theorem fetch_failure_counterexample:
  "pullCloudRepo (\<lambda>b k. SendRejected) (\<lambda>bytes. bytes)
     (FolderN ''repo'' [] False [FileN ''a.txt'' ''a.txt'' False]) [''home''] ''bucket''
     \<lparr>fs = DirE [(''home'', DirE [])], trace = []\<rparr>
   = (None,
      \<lparr>fs = DirE [(''home'', DirE [(''repo'', DirE [])])],
       trace = [EvMkdir [''home'', ''repo''], EvMkdir [''home'', ''repo''],
                EvGetObject ''bucket'' ''a.txt'']\<rparr>)
   \<and> fst (cloneCloudRepo (\<lambda>b k. SendRejected)
     (FolderN ''repo'' [] False [FileN ''a.txt'' ''a.txt'' False]) [''home''] ''bucket''
     \<lparr>fs = DirE [(''home'', DirE [])], trace = []\<rparr>) = Some TypeError"
  by (simp add: isFileModified_def existsSync_def path_join_def seg_step_def
      mkdir_recursive_def emit_def path_dirname_def getFileContentFromS3_def Let_def)

text \<open>
  C5, amended.  When the request for the object of a file node is rejected,
  \<open>getFileContentFromS3\<close> catches the failure and returns \<^verbatim>\<open>null\<close>, its only effect being
  the request; and \<open>pullCloudRepo\<close> on that node, where the parent directory exists and
  the destination is absent or a regular file, completes without an error and leaves
  the file system as it was.
\<close>

theorem fetch_failure_is_swallowed:
  assumes "s3 bucketName key = SendRejected"
    and "fs_lookup (fs w) (path_dirname (path_join folderPath n)) = Some (DirE es)"
    and "fs_lookup (fs w) (path_join folderPath n) = None
       \<or> fs_lookup (fs w) (path_join folderPath n) = Some (FileE L)"
  shows "getFileContentFromS3 s3 key localFilePath bucketName w
           = (Inr None, emit (EvGetObject bucketName key) w)
       \<and> fst (pullCloudRepo s3 H (FileN n key m) folderPath bucketName w) = None
       \<and> fs (snd (pullCloudRepo s3 H (FileN n key m) folderPath bucketName w)) = fs w"
proof -
  let ?lp = "path_join folderPath n"
  have g: "getFileContentFromS3 s3 key lp bucketName v
             = (Inr None, emit (EvGetObject bucketName key) v)" for lp v
    using assms(1) by (simp add: getFileContentFromS3_def Let_def)
  obtain w1 where m: "isFileModified s3 H bucketName key ?lp w = (Inr True, w1)"
    and f1: "fs w1 = fs w"
    using assms(1,3)
    by (auto simp: isFileModified_def existsSync_def calculateCloudFileHash_def
        calculateLocalFileHash_def Let_def emit_def)
  from assms(2) f1 have "mkdirp (fs w1) (path_dirname ?lp) = Inr (fs w1)"
    by (simp add: mkdirp_existing)
  then have d: "mkdir_recursive (path_dirname ?lp) w1
                  = (None, emit (EvMkdir (path_dirname ?lp)) w1)"
    by (simp add: mkdir_recursive_def emit_def)
  from m d g f1 have
    "fst (pullCloudRepo s3 H (FileN n key m) folderPath bucketName w) = None"
    "fs (snd (pullCloudRepo s3 H (FileN n key m) folderPath bucketName w)) = fs w"
    by (simp_all add: Let_def emit_def)
  with g show ?thesis by simp
qed

theorem fetch_failure_is_swallowed_witness:
  "fst (pullCloudRepo (\<lambda>b k. SendRejected) (\<lambda>bytes. bytes) (FileN ''a.txt'' ''a.txt'' False)
          [''repo''] ''bucket''
          \<lparr>fs = DirE [(''repo'', DirE [(''a.txt'', FileE ''old'')])], trace = []\<rparr>) = None
   \<and> fs (snd (pullCloudRepo (\<lambda>b k. SendRejected) (\<lambda>bytes. bytes)
          (FileN ''a.txt'' ''a.txt'' False) [''repo''] ''bucket''
          \<lparr>fs = DirE [(''repo'', DirE [(''a.txt'', FileE ''old'')])], trace = []\<rparr>))
     = DirE [(''repo'', DirE [(''a.txt'', FileE ''old'')])]"
proof -
  let ?w = "\<lparr>fs = DirE [(''repo'', DirE [(''a.txt'', FileE ''old'')])], trace = []\<rparr>"
  have a: "(\<lambda>b k. SendRejected) ''bucket'' ''a.txt'' = SendRejected" by simp
  have j: "path_join [''repo''] ''a.txt'' = [''repo'', ''a.txt'']"
    by (simp add: path_join_def seg_step_def)
  have p: "fs_lookup (fs ?w) (path_dirname (path_join [''repo''] ''a.txt''))
             = Some (DirE [(''a.txt'', FileE ''old'')])"
    by (simp add: j path_dirname_def)
  have d: "fs_lookup (fs ?w) (path_join [''repo''] ''a.txt'') = None
         \<or> fs_lookup (fs ?w) (path_join [''repo''] ''a.txt'') = Some (FileE ''old'')"
    by (simp add: j)
  from fetch_failure_is_swallowed [where H = "\<lambda>bytes. bytes" and m = False, OF a p d]
  show ?thesis by simp
qed

section \<open>Completeness of a clone\<close>











section \<open>Names of children\<close>

lemma find_None_name: "find (\<lambda>c. name c = s) cs = None \<Longrightarrow> s \<notin> name ` set cs"
  by (auto simp: find_None_iff)

lemma distinct_name_unique:
  "distinct (map name cs) \<Longrightarrow> c \<in> set cs \<Longrightarrow> d \<in> set cs \<Longrightarrow> name c = name d \<Longrightarrow> c = d"
  by (auto simp: distinct_map dest: inj_onD)

lemma map_name_replace_first:
  "find (\<lambda>c. name c = s) cs = Some c0 \<Longrightarrow> name c' = s \<Longrightarrow>
     map name (replace_first (\<lambda>c. name c = s) c' cs) = map name cs"
  by (induction cs) (auto split: if_splits)

lemma set_replace_first_distinct:
  "distinct (map name cs) \<Longrightarrow> find (\<lambda>c. name c = s) cs = Some c0 \<Longrightarrow>
     set (replace_first (\<lambda>c. name c = s) c' cs) = insert c' (set cs - {c0})"
proof (induction cs)
  case Nil
  then show ?case by simp
next
  case (Cons x xs)
  show ?case
  proof (cases "name x = s")
    case True
    with Cons.prems have "x = c0" "x \<notin> set xs" by auto
    with True show ?thesis by auto
  next
    case False
    with Cons.prems have "find (\<lambda>c. name c = s) xs = Some c0" "distinct (map name xs)"
      by simp_all
    from Cons.IH [OF this(2) this(1)] False Cons.prems(2) show ?thesis
      by (auto dest: find_Some_P)
  qed
qed

lemma has_path_file: "has_path (FileN n p m) qs = (qs = [])"
  by (cases qs) simp_all

lemma insertKey_distinct:
  "insertKey key pre parts h = Inr h' \<Longrightarrow> names_distinct h \<Longrightarrow> \<not> has_path h parts \<Longrightarrow>
     names_distinct h' \<and> (\<forall>qs. has_path h' qs = (has_path h qs \<or> prefix qs parts))"
proof (induction key pre parts h arbitrary: h' rule: insertKey.induct)
  case (3 key pre fileName n p m cs)
  from "3.prems"(1) have h': "h' = FolderN n p m (cs @ [FileN fileName key False])" by simp
  from "3.prems"(3) have fresh: "fileName \<notin> name ` set cs" by auto
  with "3.prems"(2) h' have d: "names_distinct h'" by auto
  have "has_path h' qs = (has_path (FolderN n p m cs) qs \<or> prefix qs [fileName])" for qs
  proof (cases qs)
    case Nil
    then show ?thesis by simp
  next
    case (Cons q qs')
    with h' show ?thesis by (auto simp: has_path_file)
  qed
  with d show ?case by blast
next
  case (4 key pre folderName r rs n p m cs)
  let ?P = "\<lambda>child. name child = folderName"
  show ?case
  proof (cases "find ?P cs")
    case None
    with "4.prems"(1) obtain c' where
      c': "insertKey key (pre @ [folderName]) (r # rs)
             (FolderN folderName (join_sep (pre @ [folderName])) False []) = Inr c'"
      and h': "h' = FolderN n p m (cs @ [c'])"
      by (auto split: sum.splits)
    from insertKey_root [OF c'] have nc': "name c' = folderName" by simp
    from None have fresh: "folderName \<notin> name ` set cs" by (rule find_None_name)
    let ?e = "FolderN folderName (join_sep (pre @ [folderName])) False []"
    have e: "names_distinct ?e" by simp
    have ne: "\<not> has_path ?e (r # rs)" by simp
    have pe: "has_path ?e qs = (qs = [])" for qs by (cases qs) simp_all
    from "4.IH"(1) [OF None c' e ne] have
      dc': "names_distinct c'" and
      pc': "\<And>qs. has_path c' qs = (qs = [] \<or> prefix qs (r # rs))"
      by (simp_all add: pe)
    from "4.prems"(2) h' nc' fresh dc' have d: "names_distinct h'" by auto
    have "has_path h' qs = (has_path (FolderN n p m cs) qs \<or> prefix qs (folderName # r # rs))"
      for qs
    proof (cases qs)
      case Nil
      then show ?thesis by simp
    next
      case (Cons q qs')
      with h' nc' pc' [of qs'] show ?thesis by auto
    qed
    with d show ?thesis by blast
  next
    case (Some c0)
    with "4.prems"(1) obtain c' where
      c': "insertKey key (pre @ [folderName]) (r # rs) c0 = Inr c'"
      and h': "h' = FolderN n p m (replace_first ?P c' cs)"
      by (auto split: sum.splits)
    from Some have c0: "name c0 = folderName" "c0 \<in> set cs" by (auto dest: find_Some_P)
    with insertKey_root [OF c'] have nc': "name c' = folderName" by simp
    from "4.prems"(2) have dcs: "distinct (map name cs)" by simp
    from "4.prems"(2) c0 have d0: "names_distinct c0" by simp
    from "4.prems"(3) c0 have n0: "\<not> has_path c0 (r # rs)" by auto
    from "4.IH"(2) [OF Some c' d0 n0] have
      dc': "names_distinct c'" and
      pc': "\<And>qs. has_path c' qs = (has_path c0 qs \<or> prefix qs (r # rs))"
      by auto
    have nm: "map name (replace_first ?P c' cs) = map name cs"
      using Some nc' by (rule map_name_replace_first)
    have st: "set (replace_first ?P c' cs) = insert c' (set cs - {c0})"
      using dcs Some by (rule set_replace_first_distinct)
    from "4.prems"(2) h' nm st dc' have d: "names_distinct h'" by auto
    have only: "c = c0" if "c \<in> set cs" "name c = folderName" for c
      using distinct_name_unique [OF dcs that(1) c0(2)] that(2) c0(1) by simp
    have "has_path h' qs = (has_path (FolderN n p m cs) qs \<or> prefix qs (folderName # r # rs))"
      for qs
    proof (cases qs)
      case Nil
      then show ?thesis by simp
    next
      case (Cons q qs')
      show ?thesis
      proof (cases "q = folderName")
        case True
        have "has_path h' qs = has_path c' qs'"
          using Cons True h' st nc' only by auto
        moreover have "(\<exists>c \<in> set cs. name c = folderName \<and> has_path c qs') = has_path c0 qs'"
          using c0 only by blast
        then have "has_path (FolderN n p m cs) qs = has_path c0 qs'"
          using Cons True by simp
        ultimately show ?thesis using pc' [of qs'] Cons True by simp
      next
        case False
        have "has_path h' qs
                = (\<exists>c \<in> insert c' (set cs - {c0}). name c = q \<and> has_path c qs')"
          using Cons h' st by simp
        also have "\<dots> = (\<exists>c \<in> set cs. name c = q \<and> has_path c qs')"
          using False nc' c0 by blast
        also have "\<dots> = has_path (FolderN n p m cs) qs"
          using Cons by simp
        finally show ?thesis using Cons False by simp
      qed
    qed
    with d show ?thesis by blast
  qed
qed auto

lemma insertKeys_distinct:
  "insertKeys keys h = Inr h' \<Longrightarrow> names_distinct h \<Longrightarrow>
     (\<forall>qs. has_path h qs \<longrightarrow> qs = [] \<or> (\<exists>k \<in> S. prefix qs (split_sep k))) \<Longrightarrow>
     (\<forall>key \<in> set keys. \<forall>k \<in> S. \<not> prefix (split_sep key) (split_sep k)) \<Longrightarrow>
     no_later_prefix keys \<Longrightarrow> names_distinct h'"
proof (induction keys arbitrary: h S)
  case Nil
  then show ?case by simp
next
  case (Cons key keys)
  from Cons.prems(1) obtain h1 where
    h1: "insertKey key [] (split_sep key) h = Inr h1" and rest: "insertKeys keys h1 = Inr h'"
    by (auto split: sum.splits)
  have fresh: "\<not> has_path h (split_sep key)"
  proof
    assume "has_path h (split_sep key)"
    with Cons.prems(3) have "split_sep key = [] \<or> (\<exists>k \<in> S. prefix (split_sep key) (split_sep k))"
      by blast
    with Cons.prems(4) show False by (auto simp: split_sep_nonempty)
  qed
  from insertKey_distinct [OF h1 Cons.prems(2) fresh] have
    d1: "names_distinct h1" and
    p1: "\<And>qs. has_path h1 qs = (has_path h qs \<or> prefix qs (split_sep key))"
    by auto
  have inv: "\<forall>qs. has_path h1 qs \<longrightarrow> qs = [] \<or> (\<exists>k \<in> insert key S. prefix qs (split_sep k))"
    using p1 Cons.prems(3) by auto
  have later: "\<forall>k2 \<in> set keys. \<forall>k \<in> insert key S. \<not> prefix (split_sep k2) (split_sep k)"
    using Cons.prems(4,5) by auto
  from Cons.prems(5) have "no_later_prefix keys" by simp
  from Cons.IH [OF rest d1 inv later this] show ?case .
qed

lemma fs_lookup_append:
  "fs_lookup f (p @ q) = (case fs_lookup f p of None \<Rightarrow> None | Some e \<Rightarrow> fs_lookup e q)"
  by (induction f p rule: fs_lookup.induct) (auto split: option.splits)

lemma path_join_valid: "valid_name s \<Longrightarrow> path_join p s = p @ [s]"
  by (simp add: valid_name_def path_join_plain seg_step_def)

lemma getFolderHierarchy_child:
  assumes "fs_lookup fsys folderPath = Some (DirE es)"
    and "distinct (map fst es)" and "(child, sub) \<in> set es" and "valid_name child"
  shows "getFolderHierarchy fsys (path_join folderPath child)
           = Inr (walk (path_join folderPath child) sub)"
proof -
  from assms(2,3) have "map_of es child = Some sub" by simp
  with assms(1) have "fs_lookup fsys (folderPath @ [child]) = Some sub"
    by (simp add: fs_lookup_append)
  with assms(4) show ?thesis
    by (simp add: getFolderHierarchy_def path_join_valid)
qed

lemma wf_fs_lookup: "wf_fs f \<Longrightarrow> fs_lookup f p = Some e \<Longrightarrow> wf_fs e"
proof (induction f p rule: fs_lookup.induct)
  case (3 es s ss)
  from "3.prems"(2) obtain sub where
    sub: "map_of es s = Some sub" and l: "fs_lookup sub ss = Some e"
    by (auto split: option.splits)
  from sub have "(s, sub) \<in> set es" by (rule map_of_SomeD)
  with "3.prems"(1) have "wf_fs sub" by (auto simp: list_all_iff)
  from "3.IH" [OF sub this l] show ?case .
qed auto

text \<open>
  On a well-formed file system the model satisfies the recursion of the source: the
  children of a directory node are the results of the calls on the joined paths, in
  \<^verbatim>\<open>readdir\<close> order.
\<close>

lemma getFolderHierarchy_unfold:
  assumes "wf_fs fsys" and "fs_lookup fsys folderPath = Some (DirE es)"
  shows "getFolderHierarchy fsys folderPath
           = Inr (FolderN (path_basename folderPath) (path_string folderPath) False
                    (map (\<lambda>child. projr (getFolderHierarchy fsys (path_join folderPath child)))
                       (map fst es)))"
proof -
  from wf_fs_lookup [OF assms] have dist: "distinct (map fst es)"
    and valid: "\<forall>(s, sub) \<in> set es. valid_name s"
    by (auto simp: list_all_iff)
  have "walk (path_join folderPath child) sub
          = projr (getFolderHierarchy fsys (path_join folderPath child))"
    if "(child, sub) \<in> set es" for child sub
    using getFolderHierarchy_child [OF assms(2) dist that] valid that by auto
  then have "map (\<lambda>(child, sub). walk (path_join folderPath child) sub) es
          = map (\<lambda>child. projr (getFolderHierarchy fsys (path_join folderPath child)))
              (map fst es)"
    by (auto simp: case_prod_beta)
  with assms(2) show ?thesis by (simp add: getFolderHierarchy_def)
qed

lemma walk_distinct: "wf_fs e \<Longrightarrow> names_distinct (walk p e)"
proof (induction p e rule: walk.induct)
  case (1 folderPath b)
  show ?case by simp
next
  case (2 folderPath es)
  from "2.prems" have valid: "\<forall>(s, sub) \<in> set es. valid_name s \<and> wf_fs sub"
    and dist: "distinct (map fst es)"
    by (auto simp: list_all_iff)
  let ?cs = "map (\<lambda>(child, sub). walk (path_join folderPath child) sub) es"
  have "map name ?cs = map fst es"
    using valid by (auto simp: walk_root path_join_valid path_basename_def)
  with dist have dn: "distinct (map name ?cs)" by (simp only:)
  have "names_distinct (walk (path_join folderPath child) sub)"
    if "(child, sub) \<in> set es" for child sub
    using "2.IH" [OF that] valid that by auto
  then have "\<forall>c \<in> set ?cs. names_distinct c" by auto
  with dn show ?case
    unfolding walk.simps names_distinct.simps by blast
qed

lemma join_sep_append:
  "xs \<noteq> [] \<Longrightarrow> ys \<noteq> [] \<Longrightarrow> join_sep (xs @ ys) = join_sep xs @ CHR ''/'' # join_sep ys"
proof (induction xs rule: join_sep.induct)
  case 1
  then show ?case by simp
next
  case (2 p)
  then show ?case by (cases ys) simp_all
next
  case (3 p q ps)
  then show ?case by simp
qed

lemma parts_prefix_key_prefix:
  assumes "prefix (split_sep a) (split_sep b)"
  shows "prefix a b"
proof -
  from assms obtain rest where r: "split_sep b = split_sep a @ rest"
    by (auto simp: prefix_def)
  show ?thesis
  proof (cases "rest = []")
    case True
    with r have "join_sep (split_sep b) = join_sep (split_sep a)" by simp
    then show ?thesis by (simp add: join_split_sep)
  next
    case False
    from join_sep_append [OF split_sep_nonempty False, of a] r
    have "join_sep (split_sep b) = join_sep (split_sep a) @ CHR ''/'' # join_sep rest"
      by simp
    then have "b = a @ CHR ''/'' # join_sep rest" by (simp add: join_split_sep)
    then show ?thesis by simp
  qed
qed

lemma prefix_less_eq: "prefix xs ys \<Longrightarrow> xs \<le> (ys :: string)"
proof (induction xs arbitrary: ys)
  case Nil
  show ?case by simp
next
  case (Cons x xs)
  then obtain zs where "ys = x # zs" "prefix xs zs" by (cases ys) auto
  with Cons.IH show ?case by simp
qed

lemma ascending_no_later_prefix: "sorted_wrt (<) (keys :: string list) \<Longrightarrow> no_later_prefix keys"
proof (induction keys)
  case Nil
  show ?case by simp
next
  case (Cons key keys)
  have "\<not> prefix (split_sep later) (split_sep key)" if "later \<in> set keys" for later
  proof
    assume "prefix (split_sep later) (split_sep key)"
    then have "later \<le> key" by (intro prefix_less_eq parts_prefix_key_prefix)
    moreover from Cons.prems that have "key < later" by simp
    ultimately show False by simp
  qed
  with Cons show ?case by simp
qed

text \<open>
  C6.  As stated the claim fails in remote listing mode: a file node is pushed without
  looking at the names already there, so the keys \<^verbatim>\<open>a/b\<close> and \<^verbatim>\<open>a\<close>, listed in this
  order, give the root a folder and a file that are both named \<^verbatim>\<open>a\<close>.
\<close>

theorem children_names_counterexample:
  "getBucketHierarchy ''repo'' (Some [''a/b'', ''a''])
     = Inr (FolderN ''repo'' [] False
              [FolderN ''a'' ''a'' False [FileN ''b'' ''a/b'' False],
               FileN ''a'' ''a'' False])
   \<and> map name [FolderN ''a'' ''a'' False [FileN ''b'' ''a/b'' False], FileN ''a'' ''a'' False]
       = [''a'', ''a'']
   \<and> \<not> names_distinct (FolderN ''repo'' [] False
              [FolderN ''a'' ''a'' False [FileN ''b'' ''a/b'' False],
               FileN ''a'' ''a'' False])"
  by (simp add: getBucketHierarchy_def)

text \<open>
  C6, amended.  In a hierarchy built from a key listing that is in strictly ascending
  key order, or more generally in which no key's segments are a prefix of, or equal to,
  the segments of a key listed before it, and in a hierarchy built from a local directory
  tree whose directories have valid and unique entry names, no folder node has two
  children of the same name.
\<close>

theorem children_names_distinct:
  "((sorted_wrt (<) keys \<or> no_later_prefix keys)
      \<and> getBucketHierarchy friendlyName (Some keys) = Inr h
      \<longrightarrow> names_distinct h)
   \<and> (wf_fs fsys \<and> getFolderHierarchy fsys folderPath = Inr h' \<longrightarrow> names_distinct h')"
proof (intro conjI impI)
  assume a: "(sorted_wrt (<) keys \<or> no_later_prefix keys)
      \<and> getBucketHierarchy friendlyName (Some keys) = Inr h"
  then have ins: "insertKeys keys (FolderN friendlyName [] False []) = Inr h"
    by (simp add: getBucketHierarchy_def)
  have e: "names_distinct (FolderN friendlyName [] False [])" by simp
  have "has_path (FolderN friendlyName [] False []) qs \<longrightarrow> qs = []" for qs
    by (cases qs) simp_all
  then have p: "\<forall>qs. has_path (FolderN friendlyName [] False []) qs
             \<longrightarrow> qs = [] \<or> (\<exists>k \<in> {}. prefix qs (split_sep k))"
    by blast
  have l: "\<forall>key \<in> set keys. \<forall>k \<in> {}. \<not> prefix (split_sep key) (split_sep k)" by simp
  from a have "no_later_prefix keys" by (auto intro: ascending_no_later_prefix)
  from insertKeys_distinct [OF ins e p l this] show "names_distinct h" .
next
  assume "wf_fs fsys \<and> getFolderHierarchy fsys folderPath = Inr h'"
  then show "names_distinct h'"
    by (auto simp: getFolderHierarchy_def split: option.splits
        intro: walk_distinct dest: wf_fs_lookup)
qed

theorem children_names_distinct_witness:
  "names_distinct (FolderN ''repo'' [] False
      [FileN ''a.txt'' ''a.txt'' False,
       FolderN ''b'' ''b'' False [FileN ''c.txt'' ''b/c.txt'' False,
                                  FileN ''d.txt'' ''b/d.txt'' False]])
   \<and> names_distinct (FolderN ''repo'' ''/repo'' False
      [FileN ''a.txt'' ''/repo/a.txt'' False,
       FolderN ''b'' ''/repo/b'' False [FileN ''c.txt'' ''/repo/b/c.txt'' False]])"
proof -
  let ?keys = "[''a.txt'', ''b/c.txt'', ''b/d.txt'']"
  let ?fs = "DirE [(''repo'', DirE [(''a.txt'', FileE ''A''),
                                   (''b'', DirE [(''c.txt'', FileE ''C'')])])]"
  have n: "sorted_wrt (<) ?keys \<or> no_later_prefix ?keys" by simp
  have b: "getBucketHierarchy ''repo'' (Some ?keys)
             = Inr (FolderN ''repo'' [] False
                 [FileN ''a.txt'' ''a.txt'' False,
                  FolderN ''b'' ''b'' False [FileN ''c.txt'' ''b/c.txt'' False,
                                             FileN ''d.txt'' ''b/d.txt'' False]])"
    by (simp add: getBucketHierarchy_def)
  have w: "wf_fs ?fs" by (simp add: valid_name_def)
  have l: "getFolderHierarchy ?fs [''repo'']
             = Inr (FolderN ''repo'' ''/repo'' False
                 [FileN ''a.txt'' ''/repo/a.txt'' False,
                  FolderN ''b'' ''/repo/b'' False [FileN ''c.txt'' ''/repo/b/c.txt'' False]])"
    by (simp add: getFolderHierarchy_def path_join_def seg_step_def path_basename_def
        path_string_def)
  from children_names_distinct [of ?keys "''repo''" _ ?fs "[''repo'']"] n b w l
  show ?thesis by blast
qed

section \<open>What a clone leaves at a destination\<close>



























end
